theory Spec2Isabelle
  imports Main "HOL-Library.Word"
begin

unbundle bit_operations_syntax

section \<open>The hash pipeline of \<open>pogom/pgoapi/utilities.py\<close>\<close>

text \<open>
  The module is Python: its integers are unbounded and are modelled as \<open>int\<close>; the
  places where the code narrows them (\<open>ctypes.c_int32\<close>, \<open>ctypes.c_int64\<close>,
  \<open>ctypes.c_uint\<close>, \<open>ctypes.c_uint64\<close>, \<open>struct.pack\<close>) are written out.
  A byte string is a list of 8-bit words, a text string is a \<open>string\<close>.
  Every exception the modelled code can raise is a value of \<open>error\<close>.
\<close>

type_synonym byte = "8 word"

text \<open>
  A Python float is an IEEE-754 double. The hash path reads a float only through
  \<open>struct.unpack('<Q', struct.pack('<d', x))\<close>, which yields the raw 64-bit pattern
  of the double as an unsigned integer, so a float argument is represented by that
  pattern: \<open>0.0\<close> is \<open>0\<close>, \<open>1.0\<close> is \<open>0x3FF0000000000000\<close>,
  \<open>-0.0\<close> is \<open>0x8000000000000000\<close>.
\<close>

type_synonym float64 = "64 word"

datatype error = StructError | OddLengthString | NonHexadecimalDigit

text \<open>
  The native binding \<open>_nhash.compute_hash\<close> is not part of the module: it takes a
  buffer of unsigned bytes and a 32-bit length and returns an unsigned 64-bit value
  (\<open>argtypes\<close> and \<open>restype\<close> at lines 48 and 49). It is a parameter of every
  function that reaches it.
\<close>

type_synonym compute_hash = "byte list \<Rightarrow> 32 word \<Rightarrow> 64 word"

definition HASH_SEED :: int where
  "HASH_SEED = 0x61247FBF"

subsection \<open>ctypes and struct\<close>

text \<open>
  \<open>ctypes.c_int32(v).value\<close> and its siblings do no overflow checking: they keep the
  low bits of \<open>v\<close> and read them as signed or unsigned. On the platform of the binding
  (Linux x86-64) \<open>c_uint\<close> is 32 bits wide.
\<close>

definition c_int32 :: "int \<Rightarrow> int" where
  "c_int32 v = sint (word_of_int v :: 32 word)"

definition c_int64 :: "int \<Rightarrow> int" where
  "c_int64 v = sint (word_of_int v :: 64 word)"

definition c_uint :: "int \<Rightarrow> int" where
  "c_uint v = uint (word_of_int v :: 32 word)"

definition c_uint32 :: "int \<Rightarrow> 32 word" where
  "c_uint32 v = word_of_int v"

definition c_uint64 :: "int \<Rightarrow> int" where
  "c_uint64 v = uint (word_of_int v :: 64 word)"

text \<open>Python's \<open>>>\<close> on an integer is the floor division by a power of two.\<close>

definition py_rshift :: "int \<Rightarrow> nat \<Rightarrow> int" where
  "py_rshift v n = v div 2 ^ n"

text \<open>
  \<open>struct.pack(">I", v)\<close> and \<open>struct.pack(">Q", v)\<close>: the 4 or 8 bytes of \<open>v\<close>,
  most significant first; \<open>struct.error\<close> when \<open>v\<close> is outside the unsigned range
  of the format.
\<close>

definition struct_pack_I :: "int \<Rightarrow> error + byte list" where
  "struct_pack_I v =
     (if 0 \<le> v \<and> v \<le> 0xFFFFFFFF
      then Inr [word_of_int (py_rshift v 24), word_of_int (py_rshift v 16),
                word_of_int (py_rshift v 8), word_of_int v]
      else Inl StructError)"

definition struct_pack_Q :: "int \<Rightarrow> error + byte list" where
  "struct_pack_Q v =
     (if 0 \<le> v \<and> v \<le> 0xFFFFFFFFFFFFFFFF
      then Inr [word_of_int (py_rshift v 56), word_of_int (py_rshift v 48),
                word_of_int (py_rshift v 40), word_of_int (py_rshift v 32),
                word_of_int (py_rshift v 24), word_of_int (py_rshift v 16),
                word_of_int (py_rshift v 8), word_of_int v]
      else Inl StructError)"

subsection \<open>Hexadecimal text\<close>

definition hexdigit :: "int \<Rightarrow> char" where
  "hexdigit d = (if d < 10 then char_of (48 + d) else char_of (87 + d))"

text \<open>
  The digits of a nonnegative integer in base 16, lower case, without leading zeros.
\<close>

function hex_digits :: "int \<Rightarrow> string" where
  "hex_digits n =
     (if n < 16 then [hexdigit n] else hex_digits (n div 16) @ [hexdigit (n mod 16)])"
  by pat_completeness auto
termination
  by (relation "measure nat") auto

declare hex_digits.simps [simp del]

text \<open>
  The last \<open>k\<close> hexadecimal digits of a number, with leading zeros: the text that
  zero padding to a known width produces. It is used to state what the padded digit
  strings of \<open>d2h\<close> and \<open>long_to_bytes\<close> are.
\<close>

fun hex_fixed :: "nat \<Rightarrow> int \<Rightarrow> string" where
  "hex_fixed 0 v = []"
| "hex_fixed (Suc k) v = hex_fixed k (v div 16) @ [hexdigit (v mod 16)]"

text \<open>The builtin \<open>hex\<close> (without the \<open>L\<close> suffix that Python 2 adds to a long).\<close>

definition hex :: "int \<Rightarrow> string" where
  "hex v = (if v < 0 then ''-0x'' @ hex_digits (- v) else ''0x'' @ hex_digits v)"

definition hexval :: "char \<Rightarrow> int option" where
  "hexval c =
     (let n = (of_char c :: int) in
      if 48 \<le> n \<and> n \<le> 57 then Some (n - 48)
      else if 97 \<le> n \<and> n \<le> 102 then Some (n - 87)
      else if 65 \<le> n \<and> n \<le> 70 then Some (n - 55)
      else None)"

fun unhexlify_pairs :: "string \<Rightarrow> error + byte list" where
  "unhexlify_pairs [] = Inr []"
| "unhexlify_pairs [a] = Inl OddLengthString"
| "unhexlify_pairs (a # b # cs) =
     (case hexval a of
        None \<Rightarrow> Inl NonHexadecimalDigit
      | Some x \<Rightarrow>
          (case hexval b of
             None \<Rightarrow> Inl NonHexadecimalDigit
           | Some y \<Rightarrow>
               (case unhexlify_pairs cs of
                  Inl e \<Rightarrow> Inl e
                | Inr bs \<Rightarrow> Inr (word_of_int (16 * x + y) # bs))))"

text \<open>
  \<open>binascii.unhexlify\<close>: an odd number of characters is rejected before any digit
  is looked at; otherwise each pair of hexadecimal digits is one byte.
\<close>

definition unhexlify :: "string \<Rightarrow> error + byte list" where
  "unhexlify s = (if odd (length s) then Inl OddLengthString else unhexlify_pairs s)"

subsection \<open>The float codec\<close>

definition f2i :: "float64 \<Rightarrow> int" where
  "f2i x = uint x"

definition f2h :: "float64 \<Rightarrow> string" where
  "f2h x = hex (f2i x)"

text \<open>
  \<open>d2h\<close> (lines 199 to 202, the definition in force when the hash functions run):
  the text of \<open>f2h\<close> without its first two characters and without any \<open>L\<close>, one
  \<open>0\<close> put in front when the number of digits is odd, then \<open>unhexlify\<close>.
\<close>

definition d2h :: "float64 \<Rightarrow> error + byte list" where
  "d2h f =
     (let hex_str = filter (\<lambda>c. c \<noteq> CHR ''L'') (drop 2 (f2h f));
          hex_str = replicate (length hex_str mod 2) CHR ''0'' @ hex_str
      in unhexlify hex_str)"

subsection \<open>The salted hash wrappers\<close>

definition calcHash :: "compute_hash \<Rightarrow> byte list \<Rightarrow> int" where
  "calcHash nhash buf =
     (let num_bytes = length buf;
          data = uint (nhash buf (c_uint32 (int num_bytes)))
      in c_uint64 data)"

definition hash64salt32 :: "compute_hash \<Rightarrow> byte list \<Rightarrow> int \<Rightarrow> error + int" where
  "hash64salt32 nhash buf seed =
     (case struct_pack_I seed of
        Inl e \<Rightarrow> Inl e
      | Inr s \<Rightarrow> Inr (calcHash nhash (s @ buf)))"

definition hash64salt64 :: "compute_hash \<Rightarrow> byte list \<Rightarrow> int \<Rightarrow> error + int" where
  "hash64salt64 nhash buf seed =
     (case struct_pack_Q seed of
        Inl e \<Rightarrow> Inl e
      | Inr s \<Rightarrow> Inr (calcHash nhash (s @ buf)))"

definition hash32 :: "compute_hash \<Rightarrow> byte list \<Rightarrow> int \<Rightarrow> error + int" where
  "hash32 nhash buf seed =
     (case struct_pack_I seed of
        Inl e \<Rightarrow> Inl e
      | Inr s \<Rightarrow>
          (let hash64 = calcHash nhash (s @ buf);
               signedhash64 = c_int64 hash64
           in Inr (c_uint signedhash64 XOR c_uint (py_rshift signedhash64 32))))"

subsection \<open>Location and request hashes\<close>

text \<open>
  The accuracy parameter has the default \<open>acc=5\<close>: an omitted argument is \<open>None\<close>.
  \<open>struct.pack('<d', 5)\<close> converts the integer to the double \<open>5.0\<close>, whose bit
  pattern is \<open>0x4014000000000000\<close>.
\<close>

definition default_acc :: float64 where
  "default_acc = 0x4014000000000000"

definition generate_location_hash_by_seed ::
  "compute_hash \<Rightarrow> byte list \<Rightarrow> float64 \<Rightarrow> float64 \<Rightarrow> float64 option \<Rightarrow> error + int" where
  "generate_location_hash_by_seed nhash authticket lat lng acc_arg =
     (let acc = (case acc_arg of None \<Rightarrow> default_acc | Some a \<Rightarrow> a) in
      case hash32 nhash authticket HASH_SEED of
        Inl e \<Rightarrow> Inl e
      | Inr first_hash \<Rightarrow>
     (case d2h lat of Inl e \<Rightarrow> Inl e | Inr lat_bytes \<Rightarrow>
     (case d2h lng of Inl e \<Rightarrow> Inl e | Inr lng_bytes \<Rightarrow>
     (case d2h acc of Inl e \<Rightarrow> Inl e | Inr acc_bytes \<Rightarrow>
     (let location_bytes = lat_bytes @ lng_bytes @ acc_bytes in
      case hash32 nhash location_bytes first_hash of
        Inl e \<Rightarrow> Inl e
      | Inr loc_hash \<Rightarrow> Inr (c_int32 loc_hash))))))"

definition generate_location_hash ::
  "compute_hash \<Rightarrow> float64 \<Rightarrow> float64 \<Rightarrow> float64 option \<Rightarrow> error + int" where
  "generate_location_hash nhash lat lng acc_arg =
     (let acc = (case acc_arg of None \<Rightarrow> default_acc | Some a \<Rightarrow> a) in
      case d2h lat of Inl e \<Rightarrow> Inl e | Inr lat_bytes \<Rightarrow>
     (case d2h lng of Inl e \<Rightarrow> Inl e | Inr lng_bytes \<Rightarrow>
     (case d2h acc of Inl e \<Rightarrow> Inl e | Inr acc_bytes \<Rightarrow>
     (let location_bytes = lat_bytes @ lng_bytes @ acc_bytes in
      case hash32 nhash location_bytes HASH_SEED of
        Inl e \<Rightarrow> Inl e
      | Inr loc_hash \<Rightarrow> Inr (c_int32 loc_hash)))))"

definition generate_request_hash ::
  "compute_hash \<Rightarrow> byte list \<Rightarrow> byte list \<Rightarrow> error + int" where
  "generate_request_hash nhash authticket request =
     (case hash64salt32 nhash authticket HASH_SEED of
        Inl e \<Rightarrow> Inl e
      | Inr first_hash \<Rightarrow>
          (case hash64salt64 nhash request first_hash of
             Inl e \<Rightarrow> Inl e
           | Inr req_hash \<Rightarrow> Inr (c_int64 req_hash)))"

subsection \<open>The module's global state\<close>

text \<open>
  \<open>calcHash\<close> reaches the native binding through the module global \<open>_nhash\<close>
  (\<open>global _nhash\<close>, line 219). To speak about two calls in one process, the global
  is a field of a record of the process state; the extension of the record stands for
  everything else a Python process holds (the clock that \<open>get_time\<close> reads, the
  state of a \<open>Rand48\<close>, other modules). The functions below are the location-hash
  path written once more with that state threaded through: each takes the state and
  returns its result together with the state it leaves behind.
\<close>

record module_globals =
  nhash_global :: compute_hash




subsection \<open>\<open>long_to_bytes\<close>\<close>

text \<open>\<open>int.bit_length\<close>: the number of bits of the absolute value.\<close>

function bit_length_abs :: "int \<Rightarrow> nat" where
  "bit_length_abs n = (if n \<le> 0 then 0 else Suc (bit_length_abs (n div 2)))"
  by pat_completeness auto
termination
  by (relation "measure nat") auto

declare bit_length_abs.simps [simp del]

definition bit_length :: "int \<Rightarrow> nat" where
  "bit_length v = bit_length_abs \<bar>v\<bar>"

text \<open>
  The value of \<open>('%%0%dx' % n) % v\<close>: the hexadecimal digits of \<open>v\<close>, a minus sign
  in front of a negative one, zeros between the sign and the digits up to \<open>n\<close>
  characters in all. For \<open>n = 0\<close> the format is \<open>%00x\<close> and nothing is padded.
\<close>

definition format_0x :: "nat \<Rightarrow> int \<Rightarrow> string" where
  "format_0x n v =
     (let sign = (if v < 0 then ''-'' else '''');
          digits = hex_digits \<bar>v\<bar>
      in sign @ replicate (n - length sign - length digits) CHR ''0'' @ digits)"

definition long_to_bytes :: "int \<Rightarrow> string \<Rightarrow> error + byte list" where
  "long_to_bytes val endianness =
     (let width = bit_length val;
          width = width + (8 - (if width mod 8 \<noteq> 0 then width mod 8 else 8))
      in case unhexlify (format_0x (width div 4) val) of
           Inl e \<Rightarrow> Inl e
         | Inr s \<Rightarrow> Inr (if endianness = ''little'' then rev s else s))"

subsection \<open>The operations as the specification words them\<close>

text \<open>
  \<open>big_endian n v\<close> is the encoding of \<open>v\<close> in exactly \<open>n\<close> bytes, most
  significant first; \<open>bytes_to_int\<close> reads a byte string as a big-endian number.
\<close>

fun big_endian :: "nat \<Rightarrow> int \<Rightarrow> byte list" where
  "big_endian 0 v = []"
| "big_endian (Suc n) v = big_endian n (v div 256) @ [word_of_int (v mod 256)]"

definition bytes_to_int :: "byte list \<Rightarrow> int" where
  "bytes_to_int bs = foldl (\<lambda>a b. a * 256 + uint b) 0 bs"

definition float_to_big_endian_bytes :: "float64 \<Rightarrow> byte list" where
  "float_to_big_endian_bytes x = big_endian 8 (uint x)"

definition fold_to_uint32 :: "int \<Rightarrow> int" where
  "fold_to_uint32 h = (drop_bit 32 h AND 0xFFFFFFFF) XOR (h AND 0xFFFFFFFF)"

definition reinterpret_as_int32 :: "int \<Rightarrow> int" where
  "reinterpret_as_int32 v = (if v < 2 ^ 31 then v else v - 2 ^ 32)"

definition reinterpret_as_int64 :: "int \<Rightarrow> int" where
  "reinterpret_as_int64 v = (if v < 2 ^ 63 then v else v - 2 ^ 64)"

definition opaque_hash :: "compute_hash \<Rightarrow> byte list \<Rightarrow> int" where
  "opaque_hash nhash buffer = uint (nhash buffer (word_of_nat (length buffer)))"

definition salted_hash :: "compute_hash \<Rightarrow> int \<Rightarrow> byte list \<Rightarrow> int" where
  "salted_hash nhash seed payload = opaque_hash nhash (big_endian 4 seed @ payload)"

definition salted_hash64 :: "compute_hash \<Rightarrow> int \<Rightarrow> byte list \<Rightarrow> int" where
  "salted_hash64 nhash seed payload = opaque_hash nhash (big_endian 8 seed @ payload)"

text \<open>
  The four steps of the location hash over already encoded coordinates: concatenate,
  hash with the seed prepended, fold, reinterpret.
\<close>

definition location_hash :: "compute_hash \<Rightarrow> byte list \<Rightarrow> byte list \<Rightarrow> byte list \<Rightarrow> int \<Rightarrow> int" where
  "location_hash nhash lat_bytes lng_bytes acc_bytes seed =
     (let payload = lat_bytes @ lng_bytes @ acc_bytes;
          h = salted_hash nhash seed payload;
          folded = fold_to_uint32 h
      in reinterpret_as_int32 folded)"



section \<open>Verification\<close>

subsection \<open>Narrowing and folding\<close>

lemma c_uint_take_bit: "c_uint v = take_bit 32 v"
  by (simp add: c_uint_def uint_word_of_int_eq)

lemma py_rshift_drop_bit: "py_rshift v n = drop_bit n v"
  by (simp add: py_rshift_def drop_bit_eq_div)

lemma low_word: "c_uint (sint (h :: 64 word)) = take_bit 32 (uint h)"
  by (simp add: c_uint_take_bit sint_uint take_bit_signed_take_bit)

lemma high_word:
  "c_uint (py_rshift (sint (h :: 64 word)) 32) = take_bit 32 (drop_bit 32 (uint h))"
  unfolding c_uint_take_bit py_rshift_drop_bit
  by (rule bit_eqI) (auto simp add: bit_simps sint_uint)

lemma and_ffffffff: "v AND (0xFFFFFFFF :: int) = take_bit 32 v"
proof -
  have "(0xFFFFFFFF :: int) = mask 32"
    by (simp add: mask_eq_exp_minus_1)
  then show ?thesis
    by (simp add: take_bit_eq_mask)
qed

lemma fold_to_uint32_take_bit:
  "fold_to_uint32 h = take_bit 32 (drop_bit 32 h) XOR take_bit 32 h"
  by (simp add: fold_to_uint32_def and_ffffffff)

lemma source_fold_eq:
  "c_uint (c_int64 (uint (h :: 64 word))) XOR c_uint (py_rshift (c_int64 (uint h)) 32)
     = fold_to_uint32 (uint h)"
  by (simp add: c_int64_def low_word high_word fold_to_uint32_take_bit xor.commute)

lemma calcHash_opaque: "calcHash nhash buf = opaque_hash nhash buf"
  by (simp add: calcHash_def opaque_hash_def c_uint64_def c_uint32_def)

lemma signed_take_bit_unsigned:
  fixes k :: int
  assumes "0 \<le> k" and "k < 2 ^ Suc n"
  shows "signed_take_bit n k = (if k < 2 ^ n then k else k - 2 ^ Suc n)"
proof (cases "k < 2 ^ n")
  case True
  with assms show ?thesis
    by (simp add: signed_take_bit_int_eq_self)
next
  case False
  have "signed_take_bit n k = take_bit (Suc n) (k + 2 ^ n) - 2 ^ n"
    by (simp add: signed_take_bit_eq_take_bit_shift)
  also have "take_bit (Suc n) (k + 2 ^ n) = (k + 2 ^ n) mod 2 ^ Suc n"
    by (simp add: take_bit_eq_mod)
  also have "(k + 2 ^ n) mod 2 ^ Suc n = k - 2 ^ n"
  proof -
    have "k + 2 ^ n = k - 2 ^ n + 2 ^ Suc n"
      by simp
    then have "(k + 2 ^ n) mod 2 ^ Suc n = (k - 2 ^ n + 2 ^ Suc n) mod 2 ^ Suc n"
      by (simp only:)
    also have "\<dots> = (k - 2 ^ n) mod 2 ^ Suc n"
      by (simp only: mod_add_self2)
    also have "\<dots> = k - 2 ^ n"
      using assms False by simp
    finally show ?thesis .
  qed
  finally show ?thesis
    using False by simp
qed

lemma c_int32_unsigned:
  assumes "0 \<le> v" and "v < 2 ^ 32"
  shows "c_int32 v = reinterpret_as_int32 v"
proof -
  have "c_int32 v = signed_take_bit 31 v"
    by (simp add: c_int32_def sint_sbintrunc')
  also have "\<dots> = (if v < 2 ^ 31 then v else v - 2 ^ Suc 31)"
    using assms by (intro signed_take_bit_unsigned) simp_all
  finally show ?thesis
    by (simp add: reinterpret_as_int32_def)
qed

lemma c_int64_unsigned:
  assumes "0 \<le> v" and "v < 2 ^ 64"
  shows "c_int64 v = reinterpret_as_int64 v"
proof -
  have "c_int64 v = signed_take_bit 63 v"
    by (simp add: c_int64_def sint_sbintrunc')
  also have "\<dots> = (if v < 2 ^ 63 then v else v - 2 ^ Suc 63)"
    using assms by (intro signed_take_bit_unsigned) simp_all
  finally show ?thesis
    by (simp add: reinterpret_as_int64_def)
qed

lemma fold_to_uint32_range: "0 \<le> fold_to_uint32 h \<and> fold_to_uint32 h < 2 ^ 32"
proof -
  have "fold_to_uint32 h = take_bit 32 (drop_bit 32 h XOR h)"
    by (simp add: fold_to_uint32_take_bit)
  then show ?thesis
    by (simp only: take_bit_nonnegative take_bit_int_less_exp simp_thms)
qed

lemma opaque_hash_range: "0 \<le> opaque_hash nhash buf \<and> opaque_hash nhash buf < 2 ^ 64"
  using uint_lt2p [of "nhash buf (word_of_nat (length buf))"]
  by (simp add: opaque_hash_def)

lemma c_uint_id: "0 \<le> v \<Longrightarrow> v < 2 ^ 32 \<Longrightarrow> c_uint v = v"
  by (simp add: c_uint_take_bit take_bit_int_eq_self)

lemma c_uint_c_int32: "c_uint (c_int32 v) = c_uint v"
  by (simp add: c_uint_take_bit c_int32_def sint_sbintrunc' take_bit_signed_take_bit)

subsection \<open>Big-endian byte strings\<close>

lemma word8_mod256: "(word_of_int (x mod 256) :: 8 word) = word_of_int x"
  by (simp add: word_of_int_eq_iff take_bit_eq_mod)

lemma div_256_drop_bit: "(v::int) div 256 = drop_bit 8 v"
  by (simp add: drop_bit_eq_div)

lemma big_endian_4: "big_endian 4 v =
  [word_of_int (drop_bit 24 v), word_of_int (drop_bit 16 v), word_of_int (drop_bit 8 v), word_of_int v]"
proof -
  have e: "(4::nat) = Suc (Suc (Suc (Suc 0)))"
    by simp
  show ?thesis
    by (subst e) (simp add: word8_mod256 div_256_drop_bit)
qed

lemma struct_pack_I_big_endian:
  "0 \<le> v \<Longrightarrow> v < 2 ^ 32 \<Longrightarrow> struct_pack_I v = Inr (big_endian 4 v)"
  by (simp add: struct_pack_I_def big_endian_4 py_rshift_drop_bit)

lemma big_endian_8: "big_endian 8 v =
  [word_of_int (drop_bit 56 v), word_of_int (drop_bit 48 v), word_of_int (drop_bit 40 v), word_of_int (drop_bit 32 v),
   word_of_int (drop_bit 24 v), word_of_int (drop_bit 16 v), word_of_int (drop_bit 8 v), word_of_int v]"
proof -
  have e: "(8::nat) = Suc (Suc (Suc (Suc (Suc (Suc (Suc (Suc 0)))))))"
    by simp
  show ?thesis
    by (subst e) (simp add: word8_mod256 div_256_drop_bit)
qed

lemma struct_pack_Q_big_endian:
  "0 \<le> v \<Longrightarrow> v < 2 ^ 64 \<Longrightarrow> struct_pack_Q v = Inr (big_endian 8 v)"
  by (simp add: struct_pack_Q_def big_endian_8 py_rshift_drop_bit)

lemma length_big_endian: "length (big_endian n v) = n"
  by (induction n arbitrary: v) simp_all

lemma bytes_to_int_snoc: "bytes_to_int (bs @ [b]) = bytes_to_int bs * 256 + uint b"
  by (simp add: bytes_to_int_def)

lemma uint_byte_mod: "uint (word_of_int (v mod 256) :: 8 word) = v mod 256"
  by (simp add: uint_word_of_int_eq take_bit_eq_mod)

lemma bytes_to_int_big_endian: "bytes_to_int (big_endian n v) = v mod 256 ^ n"
proof (induction n arbitrary: v)
  case 0
  show ?case by (simp add: bytes_to_int_def)
next
  case (Suc n)
  have "v mod (256 * 256 ^ n) = 256 * (v div 256 mod 256 ^ n) + v mod 256"
    by (rule zmod_zmult2_eq) simp
  then show ?case
    by (simp add: bytes_to_int_snoc Suc.IH uint_byte_mod)
qed

subsection \<open>The salted hash wrappers and the fold\<close>

lemma HASH_SEED_range: "0 \<le> HASH_SEED \<and> HASH_SEED < 2 ^ 32"
  by (simp add: HASH_SEED_def)

lemma hash64salt32_salted:
  "0 \<le> seed \<Longrightarrow> seed < 2 ^ 32 \<Longrightarrow>
   hash64salt32 nhash buf seed = Inr (salted_hash nhash seed buf)"
  by (simp add: hash64salt32_def struct_pack_I_big_endian calcHash_opaque salted_hash_def)

lemma hash64salt64_salted:
  "0 \<le> seed \<Longrightarrow> seed < 2 ^ 64 \<Longrightarrow>
   hash64salt64 nhash buf seed = Inr (salted_hash64 nhash seed buf)"
  by (simp add: hash64salt64_def struct_pack_Q_big_endian calcHash_opaque salted_hash64_def)

lemma hash32_calc:
  "hash32 nhash buf seed =
     (case struct_pack_I seed of Inl e \<Rightarrow> Inl e
      | Inr s \<Rightarrow> Inr (fold_to_uint32 (calcHash nhash (s @ buf))))"
proof -
  have "calcHash nhash b = uint (nhash b (word_of_nat (length b)))" for b
    by (simp add: calcHash_opaque opaque_hash_def)
  then show ?thesis
    by (simp add: hash32_def Let_def source_fold_eq split: sum.splits)
qed

lemma hash32_salted:
  "0 \<le> seed \<Longrightarrow> seed < 2 ^ 32 \<Longrightarrow>
   hash32 nhash buf seed = Inr (fold_to_uint32 (salted_hash nhash seed buf))"
  by (simp add: hash32_calc struct_pack_I_big_endian calcHash_opaque salted_hash_def)

lemma salted_hash_range: "0 \<le> salted_hash nhash seed buf \<and> salted_hash nhash seed buf < 2 ^ 64"
  unfolding salted_hash_def by (rule opaque_hash_range)

lemma salted_hash64_range: "0 \<le> salted_hash64 nhash seed buf \<and> salted_hash64 nhash seed buf < 2 ^ 64"
  unfolding salted_hash64_def by (rule opaque_hash_range)

text \<open>
  Claim C2. For every buffer and seed, what \<open>hash32\<close> returns is the XOR of the high
  and the low 32-bit word of the unsigned 64-bit value that \<open>hash64salt32\<close> returns
  for the same buffer and seed; for every unsigned 64-bit value, the route of the code
  (signed reinterpretation, arithmetic shift, truncation to 32 bits) gives
  \<open>((h >> 32) & 0xFFFFFFFF) XOR (h & 0xFFFFFFFF)\<close> on the unsigned pattern; and a
  primitive that answers \<open>0x0000000100000002\<close> is folded to 3.
\<close>

theorem hash32_folds_unsigned_pattern:
  "hash32 nhash buf seed =
     (case hash64salt32 nhash buf seed of
        Inl e \<Rightarrow> Inl e
      | Inr h \<Rightarrow> Inr ((drop_bit 32 h AND 0xFFFFFFFF) XOR (h AND 0xFFFFFFFF)))
   \<and> c_uint (c_int64 (uint (h64 :: 64 word))) XOR c_uint (py_rshift (c_int64 (uint h64)) 32)
       = (drop_bit 32 (uint h64) AND 0xFFFFFFFF) XOR (uint h64 AND 0xFFFFFFFF)
   \<and> hash32 (\<lambda>b n. 0x0000000100000002) buf HASH_SEED = Inr 3"
proof (intro conjI)
  show "hash32 nhash buf seed =
     (case hash64salt32 nhash buf seed of
        Inl e \<Rightarrow> Inl e
      | Inr h \<Rightarrow> Inr ((drop_bit 32 h AND 0xFFFFFFFF) XOR (h AND 0xFFFFFFFF)))"
    by (simp add: hash32_calc hash64salt32_def fold_to_uint32_def split: sum.splits)
  show "c_uint (c_int64 (uint h64)) XOR c_uint (py_rshift (c_int64 (uint h64)) 32)
       = (drop_bit 32 (uint h64) AND 0xFFFFFFFF) XOR (uint h64 AND 0xFFFFFFFF)"
    by (simp add: source_fold_eq fold_to_uint32_def)
  have "fold_to_uint32 0x0000000100000002 = 3"
    by (simp add: fold_to_uint32_def)
  then show "hash32 (\<lambda>b n. 0x0000000100000002) buf HASH_SEED = Inr 3"
    using HASH_SEED_range by (simp add: hash32_salted salted_hash_def opaque_hash_def)
qed

lemma hash64salt32_HASH_SEED:
  "hash64salt32 nhash buf HASH_SEED = Inr (salted_hash nhash HASH_SEED buf)"
  using HASH_SEED_range by (intro hash64salt32_salted) simp_all

lemma hash32_HASH_SEED:
  "hash32 nhash buf HASH_SEED = Inr (fold_to_uint32 (salted_hash nhash HASH_SEED buf))"
  using HASH_SEED_range by (intro hash32_salted) simp_all

text \<open>
  Claim C5. For every auth ticket and request buffer, \<open>generate_request_hash\<close> returns
  the signed 64-bit reinterpretation of the hash of the request salted with the 8-byte
  big-endian encoding of the whole 64-bit value that the primitive returns for the auth
  ticket salted with the 4-byte encoding of \<open>HASH_SEED\<close>; it never raises.
\<close>

theorem request_hash_pipeline:
  "generate_request_hash nhash authticket request =
     Inr (reinterpret_as_int64
            (salted_hash64 nhash (salted_hash nhash HASH_SEED authticket) request))"
proof -
  let ?stage1 = "salted_hash nhash HASH_SEED authticket"
  let ?h = "salted_hash64 nhash ?stage1 request"
  have "hash64salt64 nhash request ?stage1 = Inr ?h"
    using salted_hash_range [of nhash HASH_SEED authticket]
    by (intro hash64salt64_salted) simp_all
  moreover have "c_int64 ?h = reinterpret_as_int64 ?h"
    using salted_hash64_range [of nhash ?stage1 request]
    by (intro c_int64_unsigned) simp_all
  ultimately show ?thesis
    by (simp add: generate_request_hash_def hash64salt32_HASH_SEED)
qed

text \<open>
  Claim C9. Whatever the primitive returns, every value that \<open>hash32\<close> returns lies
  in \<open>[0, 2^32)\<close>, and reading its signed 32-bit reinterpretation back as unsigned
  gives the same value: no bit of the fold is lost. For a seed in the range of
  \<open>struct.pack(">I")\<close>, \<open>hash32\<close> does return a value.
\<close>

theorem hash32_unsigned_32:
  "(hash32 nhash buf seed = Inr v \<longrightarrow> 0 \<le> v \<and> v < 2 ^ 32 \<and> c_uint (c_int32 v) = v)
   \<and> (0 \<le> seed \<and> seed < 2 ^ 32 \<longrightarrow> (\<exists>v. hash32 nhash buf seed = Inr v))"
proof (intro conjI impI)
  assume h: "hash32 nhash buf seed = Inr v"
  then obtain s where "v = fold_to_uint32 (calcHash nhash (s @ buf))"
    by (auto simp add: hash32_calc split: sum.splits)
  then have r: "0 \<le> v \<and> v < 2 ^ 32"
    by (simp only: fold_to_uint32_range)
  then show "0 \<le> v" and "v < 2 ^ 32"
    by simp_all
  from r show "c_uint (c_int32 v) = v"
    by (simp only: c_uint_c_int32 c_uint_id)
next
  assume "0 \<le> seed \<and> seed < 2 ^ 32"
  then show "\<exists>v. hash32 nhash buf seed = Inr v"
    by (simp add: hash32_salted)
qed

theorem hash32_unsigned_32_witness:
  "hash32 (\<lambda>b n. 0xFFFFFFFF00000000) [] 7 = Inr 0xFFFFFFFF
   \<and> c_uint (c_int32 0xFFFFFFFF) = 0xFFFFFFFF"
proof -
  have r: "(0::int) \<le> 7 \<and> (7::int) < 2 ^ 32"
    by simp
  have e: "hash32 (\<lambda>b n. 0xFFFFFFFF00000000) [] 7 = Inr 0xFFFFFFFF"
    using r by (simp add: hash32_salted salted_hash_def opaque_hash_def fold_to_uint32_def)
  from hash32_unsigned_32 [of "\<lambda>b n. 0xFFFFFFFF00000000" "[]" 7 "0xFFFFFFFF"] e r
  show ?thesis
    by simp
qed

subsection \<open>Hexadecimal digits\<close>

lemma of_char_hexdigit:
  assumes "0 \<le> d" and "d < 16"
  shows "(of_char (hexdigit d) :: int) = (if d < 10 then 48 + d else 87 + d)"
  using assms by (simp add: hexdigit_def)

lemma hexval_hexdigit: "0 \<le> d \<Longrightarrow> d < 16 \<Longrightarrow> hexval (hexdigit d) = Some d"
  by (simp add: hexval_def of_char_hexdigit Let_def)

lemma hexdigit_not_L:
  assumes "0 \<le> d" and "d < 16"
  shows "hexdigit d \<noteq> CHR ''L''"
proof
  assume "hexdigit d = CHR ''L''"
  then have "(of_char (hexdigit d) :: int) = of_char (CHR ''L'')"
    by simp
  with assms show False
    by (simp add: of_char_hexdigit split: if_splits)
qed

lemma hexdigit_0: "hexdigit 0 = CHR ''0''"
proof -
  have "(of_char (hexdigit 0) :: int) = of_char (CHR ''0'')"
    by (simp add: of_char_hexdigit)
  then show ?thesis
    by (simp only: of_char_eq_iff)
qed

lemma hex_digits_no_L:
  "0 \<le> n \<Longrightarrow> filter (\<lambda>c. c \<noteq> CHR ''L'') (hex_digits n) = hex_digits n"
proof (induction n rule: hex_digits.induct)
  case (1 n)
  show ?case
  proof (cases "n < 16")
    case True
    with "1.prems" show ?thesis
      by (simp add: hex_digits.simps [of n] hexdigit_not_L)
  next
    case False
    then have "0 \<le> n div 16"
      by simp
    with False "1.IH" have "filter (\<lambda>c. c \<noteq> CHR ''L'') (hex_digits (n div 16)) = hex_digits (n div 16)"
      by simp
    with False show ?thesis
      by (simp add: hex_digits.simps [of n] hexdigit_not_L)
  qed
qed

lemma hex_digits_length_pos: "0 < length (hex_digits n)"
  by (simp add: hex_digits.simps [of n])

lemma hex_fixed_0: "hex_fixed k 0 = replicate k CHR ''0''"
  by (induction k) (simp_all add: hexdigit_0 replicate_append_same)

lemma length_hex_fixed: "length (hex_fixed k v) = k"
  by (induction k arbitrary: v) simp_all

lemma hex_pad:
  "0 \<le> n \<Longrightarrow> length (hex_digits n) \<le> k \<Longrightarrow>
   replicate (k - length (hex_digits n)) CHR ''0'' @ hex_digits n = hex_fixed k n"
proof (induction n arbitrary: k rule: hex_digits.induct)
  case (1 n)
  from "1.prems" hex_digits_length_pos [of n] obtain k' where k: "k = Suc k'"
    by (cases k) auto
  show ?case
  proof (cases "n < 16")
    case True
    with "1.prems" show ?thesis
      by (simp add: hex_digits.simps [of n] k hex_fixed_0)
  next
    case False
    then have l: "length (hex_digits n) = Suc (length (hex_digits (n div 16)))"
      by (simp add: hex_digits.simps [of n])
    have "replicate (k' - length (hex_digits (n div 16))) CHR ''0'' @ hex_digits (n div 16)
            = hex_fixed k' (n div 16)"
      using False "1.prems" l k by (intro "1.IH") simp_all
    with False l show ?thesis
      by (simp add: hex_digits.simps [of n] k)
  qed
qed

lemma hex_digits_length_le:
  "0 \<le> n \<Longrightarrow> n < 16 ^ k \<Longrightarrow> 0 < k \<Longrightarrow> length (hex_digits n) \<le> k"
proof (induction n arbitrary: k rule: hex_digits.induct)
  case (1 n)
  from "1.prems" obtain k' where k: "k = Suc k'"
    by (cases k) auto
  show ?case
  proof (cases "n < 16")
    case True
    with "1.prems" show ?thesis
      by (simp add: hex_digits.simps [of n])
  next
    case False
    with "1.prems" k have "0 < k'"
      by (cases k') auto
    moreover have "n div 16 < 16 ^ k'"
      using "1.prems" k by (simp add: div_less_iff_less_mult)
    ultimately have "length (hex_digits (n div 16)) \<le> k'"
      using False by (intro "1.IH") simp_all
    with False show ?thesis
      by (simp add: hex_digits.simps [of n] k)
  qed
qed


subsection \<open>From digits to bytes\<close>

lemma unhexlify_pairs_snoc2:
  "unhexlify_pairs xs = Inr bs \<Longrightarrow> hexval a = Some x \<Longrightarrow> hexval b = Some y \<Longrightarrow>
   unhexlify_pairs (xs @ [a, b]) = Inr (bs @ [word_of_int (16 * x + y)])"
  by (induction xs arbitrary: bs rule: unhexlify_pairs.induct)
    (auto split: option.splits sum.splits)

lemma hex_fixed_two_more:
  "hex_fixed (Suc (Suc k)) v =
     hex_fixed k (v div 256) @ [hexdigit (v div 16 mod 16), hexdigit (v mod 16)]"
proof -
  have "v div 16 div 16 = v div (16 * 16)"
    by (rule zdiv_zmult2_eq [symmetric]) simp
  then show ?thesis
    by simp
qed

lemma two_digits_byte: "16 * ((v::int) div 16 mod 16) + v mod 16 = v mod 256"
proof -
  have "v mod (16 * 16) = 16 * (v div 16 mod 16) + v mod 16"
    by (rule zmod_zmult2_eq) simp
  then show ?thesis
    by simp
qed

lemma unhexlify_pairs_hex_fixed:
  "unhexlify_pairs (hex_fixed (2 * m) v) = Inr (big_endian m v)"
proof (induction m arbitrary: v)
  case 0
  show ?case by simp
next
  case (Suc m)
  have "unhexlify_pairs (hex_fixed (2 * m) (v div 256) @ [hexdigit (v div 16 mod 16), hexdigit (v mod 16)])
          = Inr (big_endian m (v div 256) @ [word_of_int (16 * (v div 16 mod 16) + v mod 16)])"
    by (intro unhexlify_pairs_snoc2 Suc.IH hexval_hexdigit) simp_all
  then show ?case
    by (simp only: mult_Suc_right add_2_eq_Suc hex_fixed_two_more two_digits_byte big_endian.simps)
qed

lemma unhexlify_hex_fixed: "unhexlify (hex_fixed (2 * m) v) = Inr (big_endian m v)"
  by (simp add: unhexlify_def length_hex_fixed unhexlify_pairs_hex_fixed)

subsection \<open>What \<open>d2h\<close> returns\<close>

lemma d2h_eq:
  "d2h f = Inr (big_endian ((length (hex_digits (uint f)) + 1) div 2) (uint f))"
proof -
  let ?n = "uint f"
  let ?L = "length (hex_digits ?n)"
  have "replicate (?L mod 2) CHR ''0'' @ hex_digits ?n
          = replicate ((?L + ?L mod 2) - ?L) CHR ''0'' @ hex_digits ?n"
    by simp
  also have "\<dots> = hex_fixed (?L + ?L mod 2) ?n"
    by (intro hex_pad) simp_all
  also have "?L + ?L mod 2 = 2 * ((?L + 1) div 2)"
    by presburger
  finally have "unhexlify (replicate (?L mod 2) CHR ''0'' @ hex_digits ?n)
                  = Inr (big_endian ((?L + 1) div 2) ?n)"
    by (simp only: unhexlify_hex_fixed)
  then show ?thesis
    by (simp add: d2h_def f2h_def f2i_def hex_def hex_digits_no_L Let_def)
qed


lemma d2h_length:
  "\<exists>bs. d2h f = Inr bs \<and> 0 < length bs \<and> length bs \<le> 8"
proof -
  let ?m = "(length (hex_digits (uint f)) + 1) div 2"
  have "length (hex_digits (uint f)) \<le> 16"
    using uint_lt2p [of f] by (intro hex_digits_length_le) simp_all
  moreover have "0 < length (hex_digits (uint f))"
    by (rule hex_digits_length_pos)
  ultimately have m: "0 < ?m \<and> ?m \<le> 8"
    by presburger
  have "d2h f = Inr (big_endian ?m (uint f))"
    by (rule d2h_eq)
  moreover have "length (big_endian ?m (uint f)) = ?m"
    by (rule length_big_endian)
  ultimately show ?thesis
    using m by auto
qed

lemma d2h_zero: "d2h 0 = Inr [0]"
  by (simp add: d2h_eq hex_digits.simps [of 0])

lemma d2h_short:
  assumes "uint f < 2 ^ 56"
  shows "\<exists>bs. d2h f = Inr bs \<and> length bs < 8"
proof -
  let ?m = "(length (hex_digits (uint f)) + 1) div 2"
  have "length (hex_digits (uint f)) \<le> 14"
    using assms by (intro hex_digits_length_le) simp_all
  then have m: "?m < 8"
    by presburger
  have "d2h f = Inr (big_endian ?m (uint f))"
    by (rule d2h_eq)
  moreover have "length (big_endian ?m (uint f)) = ?m"
    by (rule length_big_endian)
  ultimately show ?thesis
    using m by auto
qed

subsection \<open>\<open>long_to_bytes\<close>\<close>

lemma bit_length_abs_bounds:
  "0 < n \<Longrightarrow> 2 ^ (bit_length_abs n - 1) \<le> n \<and> n < 2 ^ bit_length_abs n"
proof (induction n rule: bit_length_abs.induct)
  case (1 n)
  show ?case
  proof (cases "n div 2 = 0")
    case True
    with "1.prems" have "n = 1"
      by presburger
    then show ?thesis
      by (simp add: bit_length_abs.simps [of 1] bit_length_abs.simps [of 0])
  next
    case False
    with "1.prems" have pos: "0 < n div 2"
      by presburger
    let ?b = "bit_length_abs (n div 2)"
    from pos "1.prems" have ih: "2 ^ (?b - 1) \<le> n div 2 \<and> n div 2 < 2 ^ ?b"
      by (intro "1.IH") simp_all
    have bpos: "0 < ?b"
      using pos by (simp add: bit_length_abs.simps [of "n div 2"])
    then have e: "(2::int) ^ ?b = 2 * 2 ^ (?b - 1)"
      by (cases ?b) simp_all
    have b: "bit_length_abs n = Suc ?b"
      using "1.prems" by (simp add: bit_length_abs.simps [of n])
    have "2 ^ ?b \<le> n"
      using ih e by presburger
    moreover have "n < 2 * 2 ^ ?b"
      using ih by presburger
    ultimately show ?thesis
      by (simp add: b)
  qed
qed

lemma bit_length_abs_pos: "0 < n \<Longrightarrow> 0 < bit_length_abs n"
  by (simp add: bit_length_abs.simps [of n])

lemma ceil8: "r < 8 \<Longrightarrow> (8 * q + r + 7) div 8 = q + (if r = 0 then 0 else 1)" for q r :: nat
  by (cases "r = 0") simp_all

lemma width_rounding:
  "b + (8 - (if b mod 8 \<noteq> 0 then b mod 8 else 8)) = 8 * ((b + 7) div 8)" for b :: nat
proof -
  define q r where "q = b div 8" and "r = b mod 8"
  have r: "r < 8"
    by (simp add: r_def)
  have b: "b = 8 * q + r"
    by (simp add: q_def r_def)
  have "(8 * q + r + 7) div 8 = q + (if r = 0 then 0 else 1)"
    using r by (rule ceil8)
  moreover have "(8 * q + r) mod 8 = r"
    using r by simp
  ultimately show ?thesis
    unfolding b using r by (simp split: if_splits)
qed

lemma eight_div_four: "8 * (m::nat) div 4 = 2 * m"
  by simp

lemma ceil8_pos: "0 < b \<Longrightarrow> 0 < ((b::nat) + 7) div 8"
  by (simp add: div_greater_zero_iff)

lemma le_ceil8: "(b::nat) \<le> 8 * ((b + 7) div 8)"
proof -
  have "b \<le> b + (8 - (if b mod 8 \<noteq> 0 then b mod 8 else 8))"
    by (rule le_add1)
  then show ?thesis
    by (simp only: width_rounding)
qed

lemma ceil8_pred_le: "0 < b \<Longrightarrow> 8 * (((b::nat) + 7) div 8 - 1) \<le> b - 1"
proof -
  assume "0 < b"
  have "8 - (if b mod 8 \<noteq> 0 then b mod 8 else 8) \<le> (7::nat)"
    by (cases "b mod 8 = 0") auto
  then have "b + (8 - (if b mod 8 \<noteq> 0 then b mod 8 else 8)) \<le> b + 7"
    by (rule add_left_mono)
  then have "8 * ((b + 7) div 8) \<le> b + 7"
    by (simp only: width_rounding)
  then show ?thesis
    using \<open>0 < b\<close> by (simp add: diff_mult_distrib2)
qed

lemma long_to_bytes_zero: "long_to_bytes 0 endianness = Inl OddLengthString"
  by (simp add: long_to_bytes_def bit_length_def bit_length_abs.simps [of 0] format_0x_def
      hex_digits.simps [of 0] unhexlify_def)

lemma long_to_bytes_positive:
  assumes "0 < val"
  defines "n \<equiv> (bit_length val + 7) div 8"
  shows "long_to_bytes val ''big'' = Inr (big_endian n val)"
    and "256 ^ (n - 1) \<le> val" and "val < 256 ^ n"
proof -
  let ?b = "bit_length val"
  have b: "?b = bit_length_abs val"
    using assms by (simp add: bit_length_def)
  have bpos: "0 < ?b"
    using assms(1) by (simp add: b bit_length_abs_pos)
  have bounds: "2 ^ (?b - 1) \<le> val \<and> val < 2 ^ ?b"
    unfolding b using assms(1) by (rule bit_length_abs_bounds)
  have npos: "0 < n"
    using bpos unfolding n_def by (rule ceil8_pos)
  have "?b \<le> 8 * n"
    unfolding n_def by (rule le_ceil8)
  then have "(2::int) ^ ?b \<le> 2 ^ (8 * n)"
    by (intro power_increasing) simp_all
  also have "(2::int) ^ (8 * n) = 256 ^ n"
    by (simp add: power_mult)
  finally show upper: "val < 256 ^ n"
    using bounds by simp
  have le: "8 * (n - 1) \<le> ?b - 1"
    using bpos unfolding n_def by (rule ceil8_pred_le)
  have "(256::int) ^ (n - 1) = 2 ^ (8 * (n - 1))"
    by (simp add: power_mult)
  also have "\<dots> \<le> 2 ^ (?b - 1)"
    using le by (intro power_increasing) simp_all
  also have "\<dots> \<le> val"
    using bounds by (rule conjunct1)
  finally show "256 ^ (n - 1) \<le> val" .
  have "(256::int) ^ n = 16 ^ (2 * n)"
    by (simp add: power_mult)
  with upper have "val < 16 ^ (2 * n)"
    by simp
  then have len: "length (hex_digits val) \<le> 2 * n"
    using assms(1) npos by (intro hex_digits_length_le) simp_all
  have "format_0x (2 * n) val = replicate (2 * n - length (hex_digits val)) CHR ''0'' @ hex_digits val"
    using assms(1) by (simp add: format_0x_def Let_def)
  also have "\<dots> = hex_fixed (2 * n) val"
    using assms(1) len by (intro hex_pad) simp_all
  finally have f: "format_0x (2 * n) val = hex_fixed (2 * n) val" .
  have w: "(?b + (8 - (if ?b mod 8 \<noteq> 0 then ?b mod 8 else 8))) div 4 = 2 * n"
    unfolding width_rounding n_def by (rule eight_div_four)
  show "long_to_bytes val ''big'' = Inr (big_endian n val)"
    unfolding long_to_bytes_def Let_def w f unhexlify_hex_fixed
    by simp
qed

subsection \<open>The location hashes\<close>

lemma d2h_total: "\<exists>bs. d2h f = Inr bs"
  using d2h_length [of f] by blast

lemma c_int32_fold: "c_int32 (fold_to_uint32 h) = reinterpret_as_int32 (fold_to_uint32 h)"
  using fold_to_uint32_range [of h] by (intro c_int32_unsigned) simp_all

lemma hash32_fold_seed:
  "hash32 nhash buf (fold_to_uint32 h)
     = Inr (fold_to_uint32 (salted_hash nhash (fold_to_uint32 h) buf))"
  using fold_to_uint32_range [of h] by (intro hash32_salted) simp_all

lemma generate_location_hash_eq:
  assumes "d2h lat = Inr lat_bytes" and "d2h lng = Inr lng_bytes"
    and "d2h (case acc of None \<Rightarrow> default_acc | Some a \<Rightarrow> a) = Inr acc_bytes"
  shows "generate_location_hash nhash lat lng acc
           = Inr (location_hash nhash lat_bytes lng_bytes acc_bytes HASH_SEED)"
  using assms
  by (simp add: generate_location_hash_def Let_def hash32_HASH_SEED c_int32_fold location_hash_def)

lemma generate_location_hash_by_seed_eq:
  assumes "d2h lat = Inr lat_bytes" and "d2h lng = Inr lng_bytes"
    and "d2h (case acc of None \<Rightarrow> default_acc | Some a \<Rightarrow> a) = Inr acc_bytes"
  shows "generate_location_hash_by_seed nhash authticket lat lng acc
           = Inr (location_hash nhash lat_bytes lng_bytes acc_bytes
                    (fold_to_uint32 (salted_hash nhash HASH_SEED authticket)))"
  using assms
  by (simp add: generate_location_hash_by_seed_def Let_def hash32_HASH_SEED hash32_fold_seed
      c_int32_fold location_hash_def)

lemma hash32_negative_seed: "seed < 0 \<Longrightarrow> hash32 nhash buf seed = Inl StructError"
  by (simp add: hash32_def struct_pack_I_def)

text \<open>
  Claim C1 says that \<open>d2h\<close> returns exactly 8 bytes, the big-endian bytes of the bit
  pattern, for every double. The code does so only when the top byte of the pattern is
  not zero (\<open>d2h_top_byte\<close>); below \<open>2^56\<close> it returns fewer bytes
  (\<open>d2h_short\<close>). At \<open>0.0\<close>, whose pattern is \<open>0\<close>, \<open>d2h\<close> returns the
  single byte \<open>00\<close>, where the fixed-width encoding is eight zero bytes.
\<close>

theorem d2h_zero_is_one_byte:
  "d2h 0 = Inr [0] \<and> float_to_big_endian_bytes 0 = [0, 0, 0, 0, 0, 0, 0, 0]"
  by (simp add: d2h_zero float_to_big_endian_bytes_def big_endian_8)

text \<open>
  Claim C3. For every payload and every seed in the unsigned range of its format, the
  buffer handed to the primitive is the big-endian encoding of the seed followed by the
  payload, with the length of the whole buffer: 4 seed bytes for \<open>hash64salt32\<close> and
  \<open>hash32\<close>, 8 seed bytes for \<open>hash64salt64\<close>. The seed bytes read back, most
  significant byte first, as the seed.
\<close>

theorem salted_buffer_layout:
  "(0 \<le> seed32 \<and> seed32 < 2 ^ 32 \<longrightarrow>
      hash64salt32 nhash payload seed32
        = Inr (uint (nhash (big_endian 4 seed32 @ payload) (word_of_nat (4 + length payload))))
      \<and> hash32 nhash payload seed32
        = Inr (fold_to_uint32
                 (uint (nhash (big_endian 4 seed32 @ payload) (word_of_nat (4 + length payload)))))
      \<and> length (big_endian 4 seed32) = 4 \<and> bytes_to_int (big_endian 4 seed32) = seed32)
   \<and> (0 \<le> seed64 \<and> seed64 < 2 ^ 64 \<longrightarrow>
      hash64salt64 nhash payload seed64
        = Inr (uint (nhash (big_endian 8 seed64 @ payload) (word_of_nat (8 + length payload))))
      \<and> length (big_endian 8 seed64) = 8 \<and> bytes_to_int (big_endian 8 seed64) = seed64)"
proof (intro conjI impI)
  assume r: "0 \<le> seed32 \<and> seed32 < 2 ^ 32"
  then show "hash64salt32 nhash payload seed32
        = Inr (uint (nhash (big_endian 4 seed32 @ payload) (word_of_nat (4 + length payload))))"
    by (simp add: hash64salt32_salted salted_hash_def opaque_hash_def length_big_endian)
  from r show "hash32 nhash payload seed32
        = Inr (fold_to_uint32
                 (uint (nhash (big_endian 4 seed32 @ payload) (word_of_nat (4 + length payload)))))"
    by (simp add: hash32_salted salted_hash_def opaque_hash_def length_big_endian)
  show "length (big_endian 4 seed32) = 4"
    by (rule length_big_endian)
  from r show "bytes_to_int (big_endian 4 seed32) = seed32"
    by (simp add: bytes_to_int_big_endian)
next
  assume r: "0 \<le> seed64 \<and> seed64 < 2 ^ 64"
  then show "hash64salt64 nhash payload seed64
        = Inr (uint (nhash (big_endian 8 seed64 @ payload) (word_of_nat (8 + length payload))))"
    by (simp add: hash64salt64_salted salted_hash64_def opaque_hash_def length_big_endian)
  show "length (big_endian 8 seed64) = 8"
    by (rule length_big_endian)
  from r show "bytes_to_int (big_endian 8 seed64) = seed64"
    by (simp add: bytes_to_int_big_endian)
qed

theorem salted_buffer_layout_witness:
  "hash64salt32 (\<lambda>b n. word_of_int (bytes_to_int b)) [2] 0x61247FBF = Inr 0x61247FBF02
   \<and> hash32 (\<lambda>b n. word_of_int (bytes_to_int b)) [2] 0x61247FBF = Inr 0x247FBF63
   \<and> hash64salt64 (\<lambda>b n. word_of_int (bytes_to_int b)) [2] 1 = Inr 0x0102"
proof -
  have r: "(0::int) \<le> 0x61247FBF \<and> (0x61247FBF::int) < 2 ^ 32" "(0::int) \<le> 1 \<and> (1::int) < 2 ^ 64"
    by simp_all
  have b4: "big_endian 4 0x61247FBF = [0x61, 0x24, 0x7F, 0xBF]"
    by (simp add: big_endian_4 drop_bit_eq_div)
  have b8: "big_endian 8 1 = [0, 0, 0, 0, 0, 0, 0, 1]"
    by (simp add: big_endian_8 drop_bit_eq_div)
  from salted_buffer_layout [of "0x61247FBF" "\<lambda>b n. word_of_int (bytes_to_int b)" "[2]" 1] r
  show ?thesis
    by (simp add: b4 b8 bytes_to_int_def fold_to_uint32_def)
qed

text \<open>
  Claim C4. For every auth ticket and coordinates, \<open>generate_location_hash_by_seed\<close>
  returns the four-step location hash of the encoded coordinates under the seed
  \<open>fold_to_uint32 (salted_hash HASH_SEED authticket)\<close>, a value in \<open>[0, 2^32)\<close>
  that has not been through the signed reinterpretation; \<open>generate_location_hash\<close> is
  the same pipeline under \<open>HASH_SEED\<close>.
\<close>

theorem location_hash_by_seed_chained:
  "\<exists>lat_bytes lng_bytes acc_bytes seed.
     d2h lat = Inr lat_bytes \<and> d2h lng = Inr lng_bytes
     \<and> d2h (case acc of None \<Rightarrow> default_acc | Some a \<Rightarrow> a) = Inr acc_bytes
     \<and> seed = fold_to_uint32 (salted_hash nhash HASH_SEED authticket)
     \<and> 0 \<le> seed \<and> seed < 2 ^ 32
     \<and> generate_location_hash_by_seed nhash authticket lat lng acc
         = Inr (location_hash nhash lat_bytes lng_bytes acc_bytes seed)
     \<and> generate_location_hash nhash lat lng acc
         = Inr (location_hash nhash lat_bytes lng_bytes acc_bytes HASH_SEED)"
proof -
  obtain a b c where d: "d2h lat = Inr a" "d2h lng = Inr b"
      "d2h (case acc of None \<Rightarrow> default_acc | Some a \<Rightarrow> a) = Inr c"
    using d2h_total by blast
  let ?seed = "fold_to_uint32 (salted_hash nhash HASH_SEED authticket)"
  have "0 \<le> ?seed \<and> ?seed < 2 ^ 32"
    by (rule fold_to_uint32_range)
  with d generate_location_hash_by_seed_eq [OF d] generate_location_hash_eq [OF d]
  show ?thesis
    by blast
qed

subsection \<open>The location hash against the specification\<close>







subsection \<open>Signed results\<close>

lemma reinterpret_as_int32_if: "reinterpret_as_int32 v = (if v < 2 ^ 31 then v else v - 2 ^ 32)"
  by (simp only: reinterpret_as_int32_def)

lemma reinterpret_as_int64_if: "reinterpret_as_int64 v = (if v < 2 ^ 63 then v else v - 2 ^ 64)"
  by (simp only: reinterpret_as_int64_def)

lemma location_by_seed_signed:
  "\<exists>seed a b c v.
     hash32 nhash authticket HASH_SEED = Inr seed
     \<and> d2h lat = Inr a \<and> d2h lng = Inr b
     \<and> d2h (case acc of None \<Rightarrow> default_acc | Some x \<Rightarrow> x) = Inr c
     \<and> hash32 nhash (a @ b @ c) seed = Inr v \<and> 0 \<le> v \<and> v < 2 ^ 32
     \<and> generate_location_hash_by_seed nhash authticket lat lng acc
         = Inr (if v < 2 ^ 31 then v else v - 2 ^ 32)"
proof -
  obtain a b c where d: "d2h lat = Inr a" "d2h lng = Inr b"
      "d2h (case acc of None \<Rightarrow> default_acc | Some x \<Rightarrow> x) = Inr c"
    using d2h_total by blast
  let ?seed = "fold_to_uint32 (salted_hash nhash HASH_SEED authticket)"
  let ?v = "fold_to_uint32 (salted_hash nhash ?seed (a @ b @ c))"
  have s: "hash32 nhash authticket HASH_SEED = Inr ?seed"
    by (rule hash32_HASH_SEED)
  have h: "hash32 nhash (a @ b @ c) ?seed = Inr ?v"
    by (rule hash32_fold_seed)
  have r: "0 \<le> ?v \<and> ?v < 2 ^ 32"
    by (rule fold_to_uint32_range)
  have "generate_location_hash_by_seed nhash authticket lat lng acc
          = Inr (reinterpret_as_int32 ?v)"
    using generate_location_hash_by_seed_eq [OF d, of nhash authticket]
    by (simp only: location_hash_def Let_def)
  then have "generate_location_hash_by_seed nhash authticket lat lng acc
          = Inr (if ?v < 2 ^ 31 then ?v else ?v - 2 ^ 32)"
    by (simp only: reinterpret_as_int32_if)
  with s d h r show ?thesis
    by blast
qed

lemma request_signed:
  "\<exists>s h.
     hash64salt32 nhash authticket HASH_SEED = Inr s
     \<and> hash64salt64 nhash request s = Inr h \<and> 0 \<le> h \<and> h < 2 ^ 64
     \<and> generate_request_hash nhash authticket request
         = Inr (if h < 2 ^ 63 then h else h - 2 ^ 64)"
proof -
  let ?s = "salted_hash nhash HASH_SEED authticket"
  let ?h = "salted_hash64 nhash ?s request"
  have s: "hash64salt32 nhash authticket HASH_SEED = Inr ?s"
    by (rule hash64salt32_HASH_SEED)
  have h: "hash64salt64 nhash request ?s = Inr ?h"
    using salted_hash_range [of nhash HASH_SEED authticket]
    by (intro hash64salt64_salted) simp_all
  have r: "0 \<le> ?h \<and> ?h < 2 ^ 64"
    by (rule salted_hash64_range)
  have "c_int64 ?h = reinterpret_as_int64 ?h"
    using r by (intro c_int64_unsigned) simp_all
  with s h have "generate_request_hash nhash authticket request = Inr (reinterpret_as_int64 ?h)"
    by (simp add: generate_request_hash_def)
  then have "generate_request_hash nhash authticket request
          = Inr (if ?h < 2 ^ 63 then ?h else ?h - 2 ^ 64)"
    by (simp only: reinterpret_as_int64_if)
  with s h r show ?thesis
    by blast
qed

lemma location_by_seed_constant_primitive:
  "generate_location_hash_by_seed (\<lambda>b n. k) authticket lat lng acc
     = Inr (reinterpret_as_int32 (fold_to_uint32 (uint k)))"
proof -
  obtain a b c where d: "d2h lat = Inr a" "d2h lng = Inr b"
      "d2h (case acc of None \<Rightarrow> default_acc | Some x \<Rightarrow> x) = Inr c"
    using d2h_total by blast
  show ?thesis
    using generate_location_hash_by_seed_eq [OF d, of "\<lambda>b n. k" authticket]
    by (simp add: location_hash_def salted_hash_def opaque_hash_def)
qed

lemma request_constant_primitive:
  "generate_request_hash (\<lambda>b n. k) authticket request = Inr (reinterpret_as_int64 (uint k))"
proof -
  obtain s h where "hash64salt32 (\<lambda>b n. k) authticket HASH_SEED = Inr s"
    and h: "hash64salt64 (\<lambda>b n. k) request s = Inr h"
    and g: "generate_request_hash (\<lambda>b n. k) authticket request
              = Inr (if h < 2 ^ 63 then h else h - 2 ^ 64)"
    using request_signed [of "\<lambda>b n. k" authticket request] by blast
  from h have "h = uint k"
    by (simp add: hash64salt64_def calcHash_opaque opaque_hash_def split: sum.splits)
  with g show ?thesis
    by (simp only: reinterpret_as_int64_if)
qed

text \<open>
  Claim C7. For every unsigned 32-bit \<open>v\<close>, \<open>c_int32\<close> yields \<open>v\<close> when
  \<open>v < 2^31\<close> and \<open>v - 2^32\<close> otherwise; likewise \<open>c_int64\<close> with
  \<open>2^63\<close> and \<open>2^64\<close>; \<open>0x80000000\<close> becomes \<open>-2147483648\<close> and
  \<open>0x7FFFFFFF\<close> stays \<open>2147483647\<close>. In the code:
  \<open>generate_location_hash_by_seed\<close> returns that reinterpretation of the unsigned
  32-bit value its second \<open>hash32\<close> call returns, and \<open>generate_request_hash\<close>
  returns the 64-bit reinterpretation of the unsigned value \<open>hash64salt64\<close> returns;
  with a primitive that answers a boundary value, the two functions return the
  boundary results.
\<close>

theorem signed_reinterpretation:
  "(0 \<le> v \<and> v < 2 ^ 32 \<longrightarrow> c_int32 v = (if v < 2 ^ 31 then v else v - 2 ^ 32))
   \<and> (0 \<le> w \<and> w < 2 ^ 64 \<longrightarrow> c_int64 w = (if w < 2 ^ 63 then w else w - 2 ^ 64))
   \<and> c_int32 0x80000000 = - 2147483648
   \<and> c_int32 0x7FFFFFFF = 2147483647
   \<and> (\<exists>seed a b c u.
         hash32 nhash authticket HASH_SEED = Inr seed
         \<and> d2h lat = Inr a \<and> d2h lng = Inr b
         \<and> d2h (case acc of None \<Rightarrow> default_acc | Some x \<Rightarrow> x) = Inr c
         \<and> hash32 nhash (a @ b @ c) seed = Inr u \<and> 0 \<le> u \<and> u < 2 ^ 32
         \<and> generate_location_hash_by_seed nhash authticket lat lng acc
             = Inr (if u < 2 ^ 31 then u else u - 2 ^ 32))
   \<and> (\<exists>s h.
         hash64salt32 nhash authticket HASH_SEED = Inr s
         \<and> hash64salt64 nhash request s = Inr h \<and> 0 \<le> h \<and> h < 2 ^ 64
         \<and> generate_request_hash nhash authticket request
             = Inr (if h < 2 ^ 63 then h else h - 2 ^ 64))
   \<and> generate_location_hash_by_seed (\<lambda>b n. 0x80000000) authticket lat lng acc
       = Inr (- 2147483648)
   \<and> generate_location_hash_by_seed (\<lambda>b n. 0x7FFFFFFF) authticket lat lng acc
       = Inr 2147483647
   \<and> generate_request_hash (\<lambda>b n. 0x8000000000000000) authticket request
       = Inr (- 9223372036854775808)
   \<and> generate_request_hash (\<lambda>b n. 0x7FFFFFFFFFFFFFFF) authticket request
       = Inr 9223372036854775807"
proof (intro conjI impI)
  assume "0 \<le> v \<and> v < 2 ^ 32"
  then have "c_int32 v = reinterpret_as_int32 v"
    by (intro c_int32_unsigned) simp_all
  then show "c_int32 v = (if v < 2 ^ 31 then v else v - 2 ^ 32)"
    by (simp only: reinterpret_as_int32_def)
next
  assume "0 \<le> w \<and> w < 2 ^ 64"
  then have "c_int64 w = reinterpret_as_int64 w"
    by (intro c_int64_unsigned) simp_all
  then show "c_int64 w = (if w < 2 ^ 63 then w else w - 2 ^ 64)"
    by (simp only: reinterpret_as_int64_def)
next
  show "c_int32 0x80000000 = - 2147483648"
    by (simp add: c_int32_def)
  show "c_int32 0x7FFFFFFF = 2147483647"
    by (simp add: c_int32_def)
  show "\<exists>seed a b c u.
         hash32 nhash authticket HASH_SEED = Inr seed
         \<and> d2h lat = Inr a \<and> d2h lng = Inr b
         \<and> d2h (case acc of None \<Rightarrow> default_acc | Some x \<Rightarrow> x) = Inr c
         \<and> hash32 nhash (a @ b @ c) seed = Inr u \<and> 0 \<le> u \<and> u < 2 ^ 32
         \<and> generate_location_hash_by_seed nhash authticket lat lng acc
             = Inr (if u < 2 ^ 31 then u else u - 2 ^ 32)"
    by (rule location_by_seed_signed)
  show "\<exists>s h.
         hash64salt32 nhash authticket HASH_SEED = Inr s
         \<and> hash64salt64 nhash request s = Inr h \<and> 0 \<le> h \<and> h < 2 ^ 64
         \<and> generate_request_hash nhash authticket request
             = Inr (if h < 2 ^ 63 then h else h - 2 ^ 64)"
    by (rule request_signed)
  show "generate_location_hash_by_seed (\<lambda>b n. 0x80000000) authticket lat lng acc
       = Inr (- 2147483648)"
    by (simp add: location_by_seed_constant_primitive fold_to_uint32_def reinterpret_as_int32_def)
  show "generate_location_hash_by_seed (\<lambda>b n. 0x7FFFFFFF) authticket lat lng acc
       = Inr 2147483647"
    by (simp add: location_by_seed_constant_primitive fold_to_uint32_def reinterpret_as_int32_def)
  show "generate_request_hash (\<lambda>b n. 0x8000000000000000) authticket request
       = Inr (- 9223372036854775808)"
    by (simp add: request_constant_primitive reinterpret_as_int64_def)
  show "generate_request_hash (\<lambda>b n. 0x7FFFFFFFFFFFFFFF) authticket request
       = Inr 9223372036854775807"
    by (simp add: request_constant_primitive reinterpret_as_int64_def)
qed

theorem signed_reinterpretation_witness:
  "c_int32 0xFFFFFFFF = - 1 \<and> c_int64 0x8000000000000000 = - 9223372036854775808"
proof -
  have "(0::int) \<le> 0xFFFFFFFF \<and> (0xFFFFFFFF::int) < 2 ^ 32"
    and "(0::int) \<le> 0x8000000000000000 \<and> (0x8000000000000000::int) < 2 ^ 64"
    by simp_all
  with signed_reinterpretation [of "0xFFFFFFFF" "0x8000000000000000"]
  show ?thesis
    by simp
qed

subsection \<open>Determinism\<close>






subsection \<open>\<open>long_to_bytes\<close> at zero and above\<close>

text \<open>
  Claim C10. \<open>long_to_bytes 0\<close> raises: the string handed to \<open>unhexlify\<close> has an
  odd number of digits. For every \<open>val > 0\<close>, with the default big endianness, the
  result is the big-endian encoding of \<open>val\<close> in \<open>n\<close> bytes, where \<open>n\<close> is the
  least number of bytes that hold \<open>val\<close>: \<open>256^(n-1) \<le> val < 256^n\<close>.
\<close>

theorem long_to_bytes_zero_raises_positive_minimal:
  "long_to_bytes 0 endianness = Inl OddLengthString
   \<and> (0 < val \<longrightarrow>
        (\<exists>n. long_to_bytes val ''big'' = Inr (big_endian n val)
           \<and> length (big_endian n val) = n
           \<and> bytes_to_int (big_endian n val) = val
           \<and> 256 ^ (n - 1) \<le> val \<and> val < 256 ^ n))"
proof (intro conjI impI)
  show "long_to_bytes 0 endianness = Inl OddLengthString"
    by (rule long_to_bytes_zero)
next
  assume pos: "0 < val"
  let ?n = "(bit_length val + 7) div 8"
  have "bytes_to_int (big_endian ?n val) = val mod 256 ^ ?n"
    by (rule bytes_to_int_big_endian)
  also have "\<dots> = val"
    using pos long_to_bytes_positive(3) [OF pos] by simp
  finally have "bytes_to_int (big_endian ?n val) = val" .
  with long_to_bytes_positive [OF pos] length_big_endian [of ?n val]
  show "\<exists>n. long_to_bytes val ''big'' = Inr (big_endian n val)
           \<and> length (big_endian n val) = n
           \<and> bytes_to_int (big_endian n val) = val
           \<and> 256 ^ (n - 1) \<le> val \<and> val < 256 ^ n"
    by blast
qed

theorem long_to_bytes_zero_raises_positive_minimal_witness:
  "(0::int) < 65536
   \<and> (\<exists>n. long_to_bytes 65536 ''big'' = Inr (big_endian n 65536)
         \<and> length (big_endian n 65536) = n
         \<and> bytes_to_int (big_endian n 65536) = 65536
         \<and> 256 ^ (n - 1) \<le> (65536::int) \<and> (65536::int) < 256 ^ n)"
  using long_to_bytes_zero_raises_positive_minimal [of "''big''" 65536]
  by simp

end
